theory Spec2Isabelle
  imports Main
begin

section \<open>NYC property sales fetcher (scripts/fetch\_data.py)\<close>

text \<open>
  A shallow embedding of class \<open>NYCDataFetcher\<close>. The script talks to three things
  outside itself: the HTTP endpoint, the clock and the file system. Each of them is
  explicit here:
  \<^item> the endpoint is a function that answers the k-th request of a call (k counts from 0)
    either with an exception of \<open>requests\<close> or with the decoded JSON body;
  \<^item> the clock is read twice, for the default end date and for the file name;
  \<^item> the file system is a map from path to CSV file, and the environment says for
    which paths opening the file for writing fails.
  The requests issued and the error-level log lines are collected in the state, in the
  order in which the code produces them. Info-level log lines and the half-second
  \<open>time.sleep\<close> between pages have no counterpart.
\<close>

subsection \<open>Data\<close>

datatype json =
    JNull
  | JBool bool
  | JNum int
  | JStr string
  | JArr "json list"
  | JObj "(string \<times> json) list"

text \<open>One row of the sales endpoint: a JSON object, field name to value.\<close>

type_synonym sales_record = "(string \<times> json) list"

text \<open>What \<open>requests.get\<close>, \<open>raise_for_status\<close> and \<open>response.json\<close> raise: subclasses
  of \<open>requests.exceptions.RequestException\<close>.\<close>

datatype request_exception =
    ConnectionError
  | Timeout
  | HTTPError nat
  | JSONDecodeError

datatype py_exception =
    RequestException request_exception
  | AttributeError
  | TypeError
  | OSError

record query_params =
  p_limit :: nat
  p_offset :: nat
  p_where :: string
  p_order :: string

datatype http_method = GET | POST

record request =
  req_method :: http_method
  req_url :: string
  req_params :: "query_params option"
  req_headers :: "(string \<times> string) list"
  req_timeout :: nat

datatype log_record = LogError string py_exception

subsection \<open>Tables and CSV files\<close>

text \<open>
  pandas is not part of the repository. What the script uses of it is written down here
  from its documented behaviour, at the level of CSV records: a file is the list of its
  rows and a row the list of its fields. The quoting that keeps fields apart in the text
  is below this level. A field is kept as the value it shows, \<open>None\<close> being the empty
  field that stands for a missing value. A row without fields is a blank line.
\<close>

type_synonym csv_field = "json option"

type_synonym csv_file = "csv_field list list"

text \<open>\<open>pd.DataFrame(all_data)\<close>: the table of a list of records. Building it from
  decoded JSON objects raises nothing.\<close>

datatype dataframe = DataFrame "sales_record list"


fun row_count :: "dataframe \<Rightarrow> nat" where
  "row_count (DataFrame rs) = length rs"

text \<open>The table has one column per key, in the order of first appearance, and one row
  per record. Of a repeated key the decoded record keeps the last value; a key that a
  record lacks, and a null, give a missing value.\<close>

fun df_columns :: "dataframe \<Rightarrow> string list" where
  "df_columns (DataFrame rs) = rev (remdups (rev (concat (map (map fst) rs))))"

definition cell :: "sales_record \<Rightarrow> string \<Rightarrow> csv_field" where
  "cell r c =
     (case map_of (rev r) c of
        None \<Rightarrow> None
      | Some v \<Rightarrow> if v = JNull then None else Some v)"

fun df_rows :: "dataframe \<Rightarrow> csv_file" where
  "df_rows (DataFrame rs) = map (\<lambda>r. map (cell r) (df_columns (DataFrame rs))) rs"

text \<open>What \<open>df.to_csv(path, index=False)\<close> puts into the file: the header row of the
  column names, then one row per row of the table. A table without columns gives blank
  lines only.\<close>

definition csv_of :: "dataframe \<Rightarrow> csv_file" where
  "csv_of df = map (\<lambda>c. Some (JStr c)) (df_columns df) # df_rows df"




type_synonym files = "string \<rightharpoonup> csv_file"

record fetcher =
  base_url :: string
  sales_endpoint :: string
  data_dir :: string
  limit :: nat
  timeout :: nat

text \<open>\<open>__init__\<close>. The directory \<open>data/raw\<close> is created there, so the two writes of
  \<open>fetch_sales_data\<close> find it.\<close>

definition NYCDataFetcher :: fetcher where
  "NYCDataFetcher =
     \<lparr>base_url = ''https://data.cityofnewyork.us/resource'',
      sales_endpoint = ''usep-8jbt.json'',
      data_dir = ''data/raw'',
      limit = 50000,
      timeout = 30\<rparr>"

text \<open>The environment of one call of \<open>fetch_sales_data\<close>.\<close>

record env =
  http :: "nat \<Rightarrow> request \<Rightarrow> request_exception + sales_record list"
  today :: string
  timestamp :: string
  write_fails :: "string \<Rightarrow> bool"

subsection \<open>The pagination loop\<close>

record loop_state =
  all_data :: "sales_record list"
  offset :: nat
  total_fetched :: nat
  sent :: "request list"
  logged :: "log_record list"

datatype control = Continue | Break | Raise request_exception

text \<open>\<open>if app_token:\<close> is Python truthiness: neither \<open>None\<close> nor the empty string.\<close>

definition build_headers :: "string option \<Rightarrow> (string \<times> string) list" where
  "build_headers app_token =
     (case app_token of
        None \<Rightarrow> []
      | Some t \<Rightarrow> if t = [] then [] else [(''X-App-Token'', t)])"

definition where_clause :: "string \<Rightarrow> string \<Rightarrow> string" where
  "where_clause start_date end_date =
     ''sale_date >= '' @ [CHR 0x27] @ start_date @ [CHR 0x27] @
     '' AND sale_date <= '' @ [CHR 0x27] @ end_date @ [CHR 0x27]"

text \<open>The request of one iteration: the \<open>params\<close> dictionary, the URL and the call of
  \<open>requests.get\<close>.\<close>

definition page_request ::
  "fetcher \<Rightarrow> string \<Rightarrow> string \<Rightarrow> (string \<times> string) list \<Rightarrow> nat \<Rightarrow> request" where
  "page_request self start_date end_date headers off =
     \<lparr>req_method = GET,
      req_url = base_url self @ ''/'' @ sales_endpoint self,
      req_params = Some \<lparr>p_limit = limit self, p_offset = off,
                         p_where = where_clause start_date end_date,
                         p_order = ''sale_date DESC''\<rparr>,
      req_headers = headers,
      req_timeout = timeout self\<rparr>"

text \<open>One pass through the body of \<open>while True\<close>, with its \<open>except\<close> clause.\<close>

definition loop_body ::
  "fetcher \<Rightarrow> (nat \<Rightarrow> request \<Rightarrow> request_exception + sales_record list) \<Rightarrow>
   string \<Rightarrow> string \<Rightarrow> (string \<times> string) list \<Rightarrow> loop_state \<Rightarrow> control \<times> loop_state" where
  "loop_body self get start_date end_date headers s =
     (let req = page_request self start_date end_date headers (offset s);
          s1 = s\<lparr>sent := sent s @ [req]\<rparr>
      in case get (length (sent s)) req of
           Inl e \<Rightarrow>
             (let s2 = s1\<lparr>logged := logged s1 @
                            [LogError ''API request failed: '' (RequestException e)]\<rparr>
              in if offset s > 0 then (Break, s2) else (Raise e, s2))
         | Inr data \<Rightarrow>
             if data = [] then (Break, s1)
             else
               (let s2 = s1\<lparr>all_data := all_data s1 @ data,
                             total_fetched := total_fetched s1 + length data\<rparr>
                in if length data < limit self then (Break, s2)
                   else (Continue, s2\<lparr>offset := offset s2 + limit self\<rparr>)))"

text \<open>The loop, run for at most \<open>fuel\<close> iterations. \<open>Continue\<close> as a result means that
  the loop has not left after that many iterations.\<close>

fun fetch_loop ::
  "fetcher \<Rightarrow> (nat \<Rightarrow> request \<Rightarrow> request_exception + sales_record list) \<Rightarrow>
   string \<Rightarrow> string \<Rightarrow> (string \<times> string) list \<Rightarrow> nat \<Rightarrow> loop_state \<Rightarrow> control \<times> loop_state" where
  "fetch_loop self get start_date end_date headers 0 s = (Continue, s)"
| "fetch_loop self get start_date end_date headers (Suc fuel) s =
     (case loop_body self get start_date end_date headers s of
        (Continue, s') \<Rightarrow> fetch_loop self get start_date end_date headers fuel s'
      | (Break, s') \<Rightarrow> (Break, s')
      | (Raise e, s') \<Rightarrow> (Raise e, s'))"

definition initial_state :: loop_state where
  "initial_state = \<lparr>all_data = [], offset = 0, total_fetched = 0, sent = [], logged = []\<rparr>"

subsection \<open>fetch\_sales\_data\<close>

definition resolve_end_date :: "env \<Rightarrow> string option \<Rightarrow> string" where
  "resolve_end_date e end_date = (case end_date of None \<Rightarrow> today e | Some d \<Rightarrow> d)"

definition timestamped_path :: "fetcher \<Rightarrow> env \<Rightarrow> string \<Rightarrow> string \<Rightarrow> string" where
  "timestamped_path self e start_date end_date =
     data_dir self @ ''/'' @
     ''nyc_property_sales_'' @ start_date @ ''_'' @ end_date @ ''_'' @ timestamp e @ ''.csv''"

definition standard_path :: "fetcher \<Rightarrow> string" where
  "standard_path self = data_dir self @ ''/'' @ ''nyc_property_sales.csv''"

text \<open>
  \<open>df.to_csv(path, index=False)\<close> as an effect on the file system. It raises
  \<open>OSError\<close> when the path cannot be opened for writing (a directory of the path is
  missing, the file is protected) and then leaves the file system as it is.
\<close>

definition to_csv :: "env \<Rightarrow> files \<Rightarrow> dataframe \<Rightarrow> string \<Rightarrow> py_exception + files" where
  "to_csv e fs df path =
     (if write_fails e path then Inl OSError else Inr (fs(path \<mapsto> csv_of df)))"

text \<open>
  The result is \<open>None\<close> while the loop is still running after \<open>fuel\<close> iterations,
  \<open>Some (Inl x)\<close> when the call raises \<open>x\<close>, and \<open>Some (Inr df)\<close> when it returns
  \<open>df\<close>. The second component is the state of the loop when it was left, the third
  the file system after the call. Neither write is inside a \<open>try\<close>, so what
  \<open>to_csv\<close> raises leaves the function.
\<close>

definition fetch_sales_data ::
  "fetcher \<Rightarrow> env \<Rightarrow> nat \<Rightarrow> string \<Rightarrow> string option \<Rightarrow> string option \<Rightarrow> files \<Rightarrow>
   (py_exception + dataframe) option \<times> loop_state \<times> files" where
  "fetch_sales_data self e fuel start_date end_date app_token fs =
     (let end_date' = resolve_end_date e end_date;
          headers = build_headers app_token
      in case fetch_loop self (http e) start_date end_date' headers fuel initial_state of
           (Continue, s) \<Rightarrow> (None, s, fs)
         | (Raise x, s) \<Rightarrow> (Some (Inl (RequestException x)), s, fs)
         | (Break, s) \<Rightarrow>
             (let df = DataFrame (all_data s);
                  filepath = timestamped_path self e start_date end_date'
              in case to_csv e fs df filepath of
                   Inl x \<Rightarrow> (Some (Inl x), s, fs)
                 | Inr fs1 \<Rightarrow>
                     (case to_csv e fs1 df (standard_path self) of
                        Inl x \<Rightarrow> (Some (Inl x), s, fs1)
                      | Inr fs2 \<Rightarrow> (Some (Inr df), s, fs2))))"

subsection \<open>get\_dataset\_info\<close>

text \<open>\<open>x.get(k, d)\<close>: only a dict has the method. A JSON object with a repeated key
  decodes to the last value.\<close>

fun dict_get :: "json \<Rightarrow> string \<Rightarrow> json \<Rightarrow> py_exception + json" where
  "dict_get (JObj kvs) k d = Inr (case map_of (rev kvs) k of Some v \<Rightarrow> v | None \<Rightarrow> d)"
| "dict_get _ k d = Inl AttributeError"

text \<open>\<open>x[:n]\<close>: strings and lists can be sliced; a dict cannot take a slice as its key.\<close>

fun slice_to :: "json \<Rightarrow> nat \<Rightarrow> py_exception + json list" where
  "slice_to (JStr s) n = Inr (map (\<lambda>c. JStr [c]) (take n s))"
| "slice_to (JArr xs) n = Inr (take n xs)"
| "slice_to _ n = Inl TypeError"

text \<open>\<open>len(x)\<close>.\<close>

fun py_len :: "json \<Rightarrow> py_exception + nat" where
  "py_len (JStr s) = Inr (length s)"
| "py_len (JArr xs) = Inr (length xs)"
| "py_len (JObj kvs) = Inr (card (fst ` set kvs))"
| "py_len _ = Inl TypeError"

text \<open>The \<open>for col in ...\<close> loop: two \<open>col.get\<close> per column.\<close>

fun log_columns :: "json list \<Rightarrow> py_exception + unit" where
  "log_columns [] = Inr ()"
| "log_columns (col # cols) =
     (case dict_get col ''name'' (JStr ''N/A'') of
        Inl x \<Rightarrow> Inl x
      | Inr _ \<Rightarrow>
          (case dict_get col ''dataTypeName'' (JStr ''N/A'') of
             Inl x \<Rightarrow> Inl x
           | Inr _ \<Rightarrow> log_columns cols))"

text \<open>The body of the \<open>try\<close> once the request has been answered with \<open>metadata\<close>:
  the lookups and slices of the log lines, in the order of the source, each with the
  exception it can raise. The source reads \<open>rowsUpdatedAt\<close> twice in a row with the
  same outcome; it is read once here.\<close>

definition describe_metadata :: "json \<Rightarrow> py_exception + json" where
  "describe_metadata metadata =
     (case dict_get metadata ''name'' (JStr ''N/A'') of
        Inl x \<Rightarrow> Inl x
      | Inr _ \<Rightarrow>
     (case dict_get metadata ''description'' (JStr ''N/A'') of
        Inl x \<Rightarrow> Inl x
      | Inr d \<Rightarrow>
     (case slice_to d 200 of
        Inl x \<Rightarrow> Inl x
      | Inr _ \<Rightarrow>
     (case dict_get metadata ''rowsUpdatedAt'' (JStr ''N/A'') of
        Inl x \<Rightarrow> Inl x
      | Inr _ \<Rightarrow>
     (case metadata of
        JObj kvs \<Rightarrow>
          (case map_of (rev kvs) ''columns'' of
             None \<Rightarrow> Inr metadata
           | Some cols \<Rightarrow>
               (case py_len cols of
                  Inl x \<Rightarrow> Inl x
                | Inr _ \<Rightarrow>
                    (case slice_to cols 10 of
                       Inl x \<Rightarrow> Inl x
                     | Inr cs \<Rightarrow>
                         (case log_columns cs of
                            Inl x \<Rightarrow> Inl x
                          | Inr _ \<Rightarrow> Inr metadata))))
      | _ \<Rightarrow> Inl AttributeError)))))"

definition metadata_request :: "fetcher \<Rightarrow> request" where
  "metadata_request self =
     \<lparr>req_method = GET,
      req_url = ''https://data.cityofnewyork.us/api/views/usep-8jbt.json'',
      req_params = None,
      req_headers = [],
      req_timeout = timeout self\<rparr>"

text \<open>
  The metadata endpoint answers a request with an exception of \<open>requests\<close> or with a
  JSON value. The result of \<open>get_dataset_info\<close> is \<open>Inl x\<close> if the call raises \<open>x\<close>
  and \<open>Inr r\<close> if it returns \<open>r\<close>, Python's \<open>None\<close> being \<open>None\<close>; with it come the
  request issued and the error-level log lines.
\<close>

definition get_dataset_info ::
  "fetcher \<Rightarrow> (request \<Rightarrow> request_exception + json) \<Rightarrow>
   (py_exception + json option) \<times> request list \<times> log_record list" where
  "get_dataset_info self get =
     (let req = metadata_request self;
          body = (case get req of
                    Inl e \<Rightarrow> Inl (RequestException e)
                  | Inr metadata \<Rightarrow> describe_metadata metadata)
      in case body of
           Inr metadata \<Rightarrow> (Inr (Some metadata), [req], [])
         | Inl x \<Rightarrow>
             (Inr None, [req], [LogError ''Failed to fetch dataset metadata: '' x]))"


subsection \<open>Notions used in the statements\<close>

text \<open>Both files of a call can be opened for writing.\<close>

definition writes_succeed :: "fetcher \<Rightarrow> env \<Rightarrow> string \<Rightarrow> string option \<Rightarrow> bool" where
  "writes_succeed self e start_date end_date \<longleftrightarrow>
     \<not> write_fails e (timestamped_path self e start_date (resolve_end_date e end_date)) \<and>
     \<not> write_fails e (standard_path self)"

text \<open>A page that ends the loop: empty, or shorter than the page size.\<close>

definition short_page :: "fetcher \<Rightarrow> 'a list \<Rightarrow> bool" where
  "short_page self pg \<longleftrightarrow> pg = [] \<or> length pg < limit self"


text \<open>
  A server that holds the rows \<open>ds\<close> of the date range, already in the requested
  order, and answers every request with the window that its \<open>$offset\<close> and
  \<open>$limit\<close> select. No request fails.
\<close>

definition serve :: "sales_record list \<Rightarrow> nat \<Rightarrow> request \<Rightarrow> request_exception + sales_record list" where
  "serve ds k req =
     (case req_params req of
        None \<Rightarrow> Inr ds
      | Some p \<Rightarrow> Inr (take (p_limit p) (drop (p_offset p) ds)))"


text \<open>\<open>ceil(n / p)\<close> on natural numbers.\<close>

definition ceil_div :: "nat \<Rightarrow> nat \<Rightarrow> nat" where
  "ceil_div n p = (n + p - 1) div p"


text \<open>The k-th window of \<open>ds\<close> at the fetcher's page size.\<close>

definition slice :: "fetcher \<Rightarrow> 'a list \<Rightarrow> nat \<Rightarrow> 'a list" where
  "slice self ds k = take (limit self) (drop (k * limit self) ds)"


text \<open>The \<open>$offset\<close> that a request carries, if it has query parameters.\<close>

definition request_offset :: "request \<Rightarrow> nat option" where
  "request_offset r = map_option p_offset (req_params r)"

section \<open>Properties\<close>

subsection \<open>One iteration\<close>

lemma loop_body_sent:
  "loop_body self g sd ed hs s = (c, s') \<Longrightarrow>
   sent s' = sent s @ [page_request self sd ed hs (offset s)]"
  by (auto simp: loop_body_def Let_def split: sum.splits if_splits)

lemma loop_body_offset:
  "loop_body self g sd ed hs s = (Continue, s') \<Longrightarrow> offset s' = offset s + limit self"
  by (auto simp: loop_body_def Let_def split: sum.splits if_splits)

lemma loop_body_Inr:
  assumes "g (length (sent s)) (page_request self sd ed hs (offset s)) = Inr pg"
  shows "loop_body self g sd ed hs s =
     (if short_page self pg then Break else Continue,
      s\<lparr>sent := sent s @ [page_request self sd ed hs (offset s)],
        all_data := all_data s @ pg,
        total_fetched := total_fetched s + length pg,
        offset := (if short_page self pg then offset s else offset s + limit self)\<rparr>)"
  using assms by (auto simp: loop_body_def Let_def short_page_def)

lemma loop_body_Inl:
  assumes "g (length (sent s)) (page_request self sd ed hs (offset s)) = Inl e"
  shows "loop_body self g sd ed hs s =
     (if offset s > 0 then Break else Raise e,
      s\<lparr>sent := sent s @ [page_request self sd ed hs (offset s)],
        logged := logged s @ [LogError ''API request failed: '' (RequestException e)]\<rparr>)"
  using assms by (auto simp: loop_body_def Let_def)

lemma fetch_loop_add:
  "fetch_loop self g sd ed hs (n + m) s =
     (case fetch_loop self g sd ed hs n s of
        (Continue, s') \<Rightarrow> fetch_loop self g sd ed hs m s'
      | r \<Rightarrow> r)"
proof (induction n arbitrary: s)
  case 0
  show ?case by simp
next
  case (Suc n)
  obtain c s1 where b: "loop_body self g sd ed hs s = (c, s1)"
    by (cases "loop_body self g sd ed hs s")
  show ?case
    using Suc.IH [of s1] b by (cases c) simp_all
qed

lemma full_pages_run:
  assumes "offset s = length (sent s) * limit self"
    and "\<forall>k. length (sent s) \<le> k \<and> k < length (sent s) + n \<longrightarrow>
           g k (page_request self sd ed hs (k * limit self)) = Inr (pages k) \<and>
           \<not> short_page self (pages k)"
  shows "\<exists>s'. fetch_loop self g sd ed hs n s = (Continue, s') \<and>
           offset s' = length (sent s') * limit self \<and>
           sent s' = sent s @ map (\<lambda>k. page_request self sd ed hs (k * limit self))
                                  [length (sent s)..<length (sent s) + n] \<and>
           all_data s' = all_data s @ concat (map pages [length (sent s)..<length (sent s) + n]) \<and>
           logged s' = logged s"
  using assms
proof (induction n arbitrary: s)
  case 0
  then show ?case by simp
next
  case (Suc n)
  let ?i = "length (sent s)"
  let ?req = "\<lambda>k. page_request self sd ed hs (k * limit self)"
  from Suc.prems have here: "g ?i (page_request self sd ed hs (offset s)) = Inr (pages ?i)"
    and full: "\<not> short_page self (pages ?i)"
    by auto
  define s1 where "s1 = s\<lparr>sent := sent s @ [page_request self sd ed hs (offset s)],
        all_data := all_data s @ pages ?i,
        total_fetched := total_fetched s + length (pages ?i),
        offset := offset s + limit self\<rparr>"
  have body: "loop_body self g sd ed hs s = (Continue, s1)"
    using loop_body_Inr [where g = g and s = s, OF here] full by (simp add: s1_def)
  have len1: "length (sent s1) = Suc ?i" by (simp add: s1_def)
  have off1: "offset s1 = length (sent s1) * limit self"
    using Suc.prems(1) by (simp add: s1_def)
  have rest: "\<forall>k. length (sent s1) \<le> k \<and> k < length (sent s1) + n \<longrightarrow>
           g k (?req k) = Inr (pages k) \<and> \<not> short_page self (pages k)"
    using Suc.prems(2) len1 by auto
  from Suc.IH [OF off1 rest] obtain s' where
    run: "fetch_loop self g sd ed hs n s1 = (Continue, s')"
    and o: "offset s' = length (sent s') * limit self"
    and t: "sent s' = sent s1 @ map ?req [length (sent s1)..<length (sent s1) + n]"
    and d: "all_data s' = all_data s1 @ concat (map pages [length (sent s1)..<length (sent s1) + n])"
    and l: "logged s' = logged s1"
    by blast
  have step: "fetch_loop self g sd ed hs (Suc n) s = (Continue, s')"
    using body run by simp
  have req0: "page_request self sd ed hs (offset s) = ?req ?i"
    using Suc.prems(1) by simp
  have upt: "[?i..<?i + Suc n] = ?i # [Suc ?i..<Suc ?i + n]"
    by (simp add: upt_conv_Cons)
  have t': "sent s' = sent s @ map ?req [?i..<?i + Suc n]"
    unfolding upt using t len1 req0 by (simp add: s1_def)
  have d': "all_data s' = all_data s @ concat (map pages [?i..<?i + Suc n])"
    unfolding upt using d len1 by (simp add: s1_def)
  have l': "logged s' = logged s"
    using l by (simp add: s1_def)
  from step o t' d' l' show ?case by blast
qed

lemma short_page_stop:
  assumes "offset s = length (sent s) * limit self"
    and "g (length (sent s)) (page_request self sd ed hs (length (sent s) * limit self)) = Inr pg"
    and "short_page self pg"
  shows "fetch_loop self g sd ed hs (Suc m) s =
     (Break, s\<lparr>sent := sent s @ [page_request self sd ed hs (length (sent s) * limit self)],
               all_data := all_data s @ pg,
               total_fetched := total_fetched s + length pg\<rparr>)"
proof -
  have "g (length (sent s)) (page_request self sd ed hs (offset s)) = Inr pg"
    using assms(1,2) by simp
  from loop_body_Inr [where g = g and s = s, OF this] assms(1,3) show ?thesis by simp
qed

lemma trace_shape:
  assumes "offset s = length (sent s) * limit self"
    and "sent s = map (\<lambda>k. page_request self sd ed hs (k * limit self)) [0..<length (sent s)]"
    and "fetch_loop self g sd ed hs n s = (c, s')"
  shows "sent s' = map (\<lambda>k. page_request self sd ed hs (k * limit self)) [0..<length (sent s')]"
  using assms
proof (induction n arbitrary: s)
  case 0
  then show ?case by simp
next
  case (Suc n)
  obtain c1 s1 where b: "loop_body self g sd ed hs s = (c1, s1)"
    by (cases "loop_body self g sd ed hs s")
  have t1: "sent s1 = sent s @ [page_request self sd ed hs (length (sent s) * limit self)]"
    using loop_body_sent [OF b] Suc.prems(1) by simp
  have shape1: "sent s1 = map (\<lambda>k. page_request self sd ed hs (k * limit self)) [0..<length (sent s1)]"
  proof -
    have "length (sent s1) = Suc (length (sent s))" using t1 by simp
    then show ?thesis using t1 Suc.prems(2) by simp
  qed
  show ?case
  proof (cases c1)
    case Continue
    have o1: "offset s1 = length (sent s1) * limit self"
      using loop_body_offset [of self g sd ed hs s s1] b Continue Suc.prems(1) t1 by simp
    have "fetch_loop self g sd ed hs n s1 = (c, s')"
      using Suc.prems(3) b Continue by simp
    from Suc.IH [OF o1 shape1 this] show ?thesis .
  next
    case Break
    then have "s' = s1" using Suc.prems(3) b by simp
    then show ?thesis using shape1 by simp
  next
    case (Raise x)
    then have "s' = s1" using Suc.prems(3) b by simp
    then show ?thesis using shape1 by simp
  qed
qed

lemma slice_short_iff:
  assumes "0 < limit self"
  shows "short_page self (slice self ds k) \<longleftrightarrow> length ds div limit self \<le> k"
proof -
  have "short_page self (slice self ds k) \<longleftrightarrow> length ds - k * limit self < limit self"
    using assms by (auto simp: short_page_def slice_def)
  also have "\<dots> \<longleftrightarrow> length ds < Suc k * limit self"
  proof -
    have aux: "\<And>n a b :: nat. 0 < b \<Longrightarrow> (n - a < b) = (n < b + a)"
      by arith
    show ?thesis using aux [OF assms, of "length ds" "k * limit self"] by simp
  qed
  also have "\<dots> \<longleftrightarrow> length ds div limit self < Suc k"
    using assms by (simp only: div_less_iff_less_mult)
  finally show ?thesis by auto
qed

lemma concat_slices: "concat (map (slice self ds) [0..<m]) = take (m * limit self) ds"
proof (induction m)
  case 0
  show ?case by simp
next
  case (Suc m)
  have "take (Suc m * limit self) ds = take (m * limit self + limit self) ds"
    by (simp add: add.commute)
  also have "\<dots> = take (m * limit self) ds @ slice self ds m"
    by (simp only: take_add slice_def)
  finally show ?case using Suc.IH by simp
qed

lemma serve_page:
  "serve ds k (page_request self sd ed hs (j * limit self)) = Inr (slice self ds j)"
  by (simp add: serve_def page_request_def slice_def)

subsection \<open>Runs from the initial state\<close>

lemma running_on_full_pages:
  assumes "\<forall>k<n. g k (page_request self sd ed hs (k * limit self)) = Inr (pages k) \<and>
                 \<not> short_page self (pages k)"
  shows "\<exists>s. fetch_loop self g sd ed hs n initial_state = (Continue, s) \<and>
             offset s = length (sent s) * limit self \<and>
             sent s = map (\<lambda>k. page_request self sd ed hs (k * limit self)) [0..<n] \<and>
             all_data s = concat (map pages [0..<n]) \<and> logged s = []"
proof -
  have o: "offset initial_state = length (sent initial_state) * limit self"
    by (simp add: initial_state_def)
  have f: "\<forall>k. length (sent initial_state) \<le> k \<and> k < length (sent initial_state) + n \<longrightarrow>
           g k (page_request self sd ed hs (k * limit self)) = Inr (pages k) \<and>
           \<not> short_page self (pages k)"
    using assms by (simp add: initial_state_def)
  from full_pages_run [where g = g and pages = pages, OF o f]
  show ?thesis by (simp add: initial_state_def)
qed

lemma paged_run:
  assumes full: "\<forall>k<K. g k (page_request self sd ed hs (k * limit self)) = Inr (pages k) \<and>
                 \<not> short_page self (pages k)"
    and last: "g K (page_request self sd ed hs (K * limit self)) = Inr (pages K)"
    and short: "short_page self (pages K)"
  shows "\<exists>s. fetch_loop self g sd ed hs (K + Suc m) initial_state = (Break, s) \<and>
             sent s = map (\<lambda>k. page_request self sd ed hs (k * limit self)) [0..<Suc K] \<and>
             all_data s = concat (map pages [0..<Suc K]) \<and> logged s = []"
proof -
  let ?req = "\<lambda>k. page_request self sd ed hs (k * limit self)"
  from running_on_full_pages [where g = g and pages = pages, OF full] obtain s1 where
    run: "fetch_loop self g sd ed hs K initial_state = (Continue, s1)"
    and o: "offset s1 = length (sent s1) * limit self"
    and t: "sent s1 = map ?req [0..<K]"
    and d: "all_data s1 = concat (map pages [0..<K])"
    and l: "logged s1 = []"
    by blast
  have len: "length (sent s1) = K" using t by simp
  have here: "g (length (sent s1)) (page_request self sd ed hs (length (sent s1) * limit self)) = Inr (pages K)"
    using last len by simp
  have stop: "fetch_loop self g sd ed hs (Suc m) s1 =
     (Break, s1\<lparr>sent := sent s1 @ [page_request self sd ed hs (length (sent s1) * limit self)],
               all_data := all_data s1 @ pages K,
               total_fetched := total_fetched s1 + length (pages K)\<rparr>)"
    by (rule short_page_stop [where g = g, OF o here short])
  have "fetch_loop self g sd ed hs (K + Suc m) initial_state = fetch_loop self g sd ed hs (Suc m) s1"
    by (simp only: fetch_loop_add run split: prod.splits control.splits) simp
  with stop show ?thesis using t d l len by simp
qed

lemma fetch_sales_data_Break:
  assumes "fetch_loop self (http e) sd (resolve_end_date e ed) (build_headers tok) fuel initial_state = (Break, s)"
    and "writes_succeed self e sd ed"
  shows "fetch_sales_data self e fuel sd ed tok fs =
     (Some (Inr (DataFrame (all_data s))), s,
      fs(timestamped_path self e sd (resolve_end_date e ed) \<mapsto> csv_of (DataFrame (all_data s)),
         standard_path self \<mapsto> csv_of (DataFrame (all_data s))))"
  using assms by (simp add: fetch_sales_data_def Let_def to_csv_def writes_succeed_def)

lemma fetch_sales_data_ended:
  assumes "fetch_loop self (http e) sd (resolve_end_date e ed) (build_headers tok) fuel initial_state = (Break, s)"
  shows "fst (fetch_sales_data self e fuel sd ed tok fs) \<noteq> None"
  using assms by (simp add: fetch_sales_data_def Let_def to_csv_def)

lemma fetch_sales_data_Raise:
  assumes "fetch_loop self (http e) sd (resolve_end_date e ed) (build_headers tok) fuel initial_state = (Raise x, s)"
  shows "fetch_sales_data self e fuel sd ed tok fs = (Some (Inl (RequestException x)), s, fs)"
  using assms by (simp add: fetch_sales_data_def Let_def)

lemma fetch_sales_data_Continue:
  assumes "fetch_loop self (http e) sd (resolve_end_date e ed) (build_headers tok) fuel initial_state = (Continue, s)"
  shows "fetch_sales_data self e fuel sd ed tok fs = (None, s, fs)"
  using assms by (simp add: fetch_sales_data_def Let_def)

lemma fetch_sales_data_state:
  "fst (snd (fetch_sales_data self e fuel sd ed tok fs)) =
   snd (fetch_loop self (http e) sd (resolve_end_date e ed) (build_headers tok) fuel initial_state)"
  by (simp add: fetch_sales_data_def Let_def to_csv_def split: prod.splits control.splits)



subsection \<open>Failures\<close>

text \<open>
  C4. If the first page request fails, \<open>fetch_sales_data\<close> raises the exception of
  that request. Nothing has been accumulated, no file has been touched, and the failed
  request is the only one issued.
\<close>

theorem first_page_failure_raises:
  assumes "http e 0 (page_request self sd (resolve_end_date e ed) (build_headers tok) 0) = Inl x"
  shows "\<exists>s. fetch_sales_data self e (Suc n) sd ed tok fs =
               (Some (Inl (RequestException x)), s, fs) \<and>
             all_data s = [] \<and>
             sent s = [page_request self sd (resolve_end_date e ed) (build_headers tok) 0]"
proof -
  let ?ed = "resolve_end_date e ed" and ?hs = "build_headers tok"
  have "http e (length (sent initial_state)) (page_request self sd ?ed ?hs (offset initial_state)) = Inl x"
    using assms by (simp add: initial_state_def)
  from loop_body_Inl [where g = "http e" and s = initial_state, OF this]
  have "\<exists>s. fetch_loop self (http e) sd ?ed ?hs (Suc n) initial_state = (Raise x, s) \<and>
             all_data s = [] \<and> sent s = [page_request self sd ?ed ?hs 0]"
    by (simp add: initial_state_def)
  then obtain s where "fetch_loop self (http e) sd ?ed ?hs (Suc n) initial_state = (Raise x, s)"
    and "all_data s = []" and "sent s = [page_request self sd ?ed ?hs 0]"
    by blast
  then show ?thesis using fetch_sales_data_Raise [of self e sd ed tok "Suc n" x s fs] by simp
qed

theorem first_page_failure_raises_witness:
  "http \<lparr>http = (\<lambda>k r. Inl Timeout), today = ''2024-06-01'', timestamp = ''20240601_120000'',
      write_fails = (\<lambda>p. False)\<rparr> 0
     (page_request NYCDataFetcher ''2019-01-01''
        (resolve_end_date \<lparr>http = (\<lambda>k r. Inl Timeout), today = ''2024-06-01'', timestamp = ''20240601_120000'',
      write_fails = (\<lambda>p. False)\<rparr> None)
        (build_headers None) 0) = Inl Timeout \<and>
   (\<exists>s. fetch_sales_data NYCDataFetcher
          \<lparr>http = (\<lambda>k r. Inl Timeout), today = ''2024-06-01'', timestamp = ''20240601_120000'',
      write_fails = (\<lambda>p. False)\<rparr>
          (Suc 0) ''2019-01-01'' None None Map.empty =
            (Some (Inl (RequestException Timeout)), s, Map.empty) \<and>
        all_data s = [])"
  using first_page_failure_raises
    [where e = "\<lparr>http = (\<lambda>k r. Inl Timeout), today = ''2024-06-01'', timestamp = ''20240601_120000'',
      write_fails = (\<lambda>p. False)\<rparr>"
       and self = NYCDataFetcher and sd = "''2019-01-01''" and ed = None and tok = None
       and x = Timeout and n = 0 and fs = Map.empty]
  by auto

text \<open>
  C3. If the first page request is answered with exactly as many records as the page
  size and the second page request fails, \<open>fetch_sales_data\<close> returns the table of
  exactly the records of the first page, in their order, and does not raise, both output
  files being writable.
\<close>

theorem partial_failure_returns_first_page:
  assumes first: "http e 0 (page_request self sd (resolve_end_date e ed) (build_headers tok) 0) = Inr pg"
    and full: "length pg = limit self"
    and second: "http e 1 (page_request self sd (resolve_end_date e ed) (build_headers tok) (limit self)) = Inl x"
    and writes: "writes_succeed self e sd ed"
  shows "fst (fetch_sales_data self e (Suc (Suc n)) sd ed tok fs) = Some (Inr (DataFrame pg))"
proof -
  let ?ed = "resolve_end_date e ed" and ?hs = "build_headers tok"
  have "\<exists>s. fetch_loop self (http e) sd ?ed ?hs (Suc (Suc n)) initial_state = (Break, s) \<and>
            all_data s = pg"
  proof (cases "pg = []")
    case True
    have "http e (length (sent initial_state)) (page_request self sd ?ed ?hs (offset initial_state)) = Inr pg"
      using first by (simp add: initial_state_def)
    from loop_body_Inr [where g = "http e" and s = initial_state, OF this] True
    show ?thesis by (simp add: short_page_def initial_state_def)
  next
    case False
    then have nonshort: "\<not> short_page self pg" using full by (simp add: short_page_def)
    define s1 where "s1 = initial_state\<lparr>sent := [page_request self sd ?ed ?hs 0],
        all_data := pg, total_fetched := length pg, offset := limit self\<rparr>"
    have "http e (length (sent initial_state)) (page_request self sd ?ed ?hs (offset initial_state)) = Inr pg"
      using first by (simp add: initial_state_def)
    from loop_body_Inr [where g = "http e" and s = initial_state, OF this] nonshort
    have b1: "loop_body self (http e) sd ?ed ?hs initial_state = (Continue, s1)"
      by (simp add: initial_state_def s1_def)
    have "0 < length pg" using False by simp
    then have pos: "0 < offset s1" using full by (simp add: s1_def)
    have "http e (length (sent s1)) (page_request self sd ?ed ?hs (offset s1)) = Inl x"
      using second by (simp add: s1_def)
    from loop_body_Inl [where g = "http e" and s = s1, OF this] pos
    have b2: "loop_body self (http e) sd ?ed ?hs s1 =
       (Break, s1\<lparr>sent := sent s1 @ [page_request self sd ?ed ?hs (offset s1)],
                 logged := logged s1 @ [LogError ''API request failed: '' (RequestException x)]\<rparr>)"
      by simp
    show ?thesis using b1 b2 by (simp add: s1_def)
  qed
  then obtain s where "fetch_loop self (http e) sd ?ed ?hs (Suc (Suc n)) initial_state = (Break, s)"
    and "all_data s = pg" by blast
  then show ?thesis
    using fetch_sales_data_Break [of self e sd ed tok "Suc (Suc n)" s fs] writes by simp
qed

theorem partial_failure_returns_first_page_witness:
  "http \<lparr>http = (\<lambda>k r. if k = 0 then Inr [[(''borough'', JStr ''1'')], [(''borough'', JStr ''2'')]] else Inl (HTTPError 503)),
         today = ''2024-06-01'', timestamp = ''20240601_120000'',
      write_fails = (\<lambda>p. False)\<rparr> 0
     (page_request (NYCDataFetcher\<lparr>limit := 2\<rparr>) ''2019-01-01''
        (resolve_end_date \<lparr>http = (\<lambda>k r. if k = 0 then Inr [[(''borough'', JStr ''1'')], [(''borough'', JStr ''2'')]] else Inl (HTTPError 503)),
         today = ''2024-06-01'', timestamp = ''20240601_120000'',
      write_fails = (\<lambda>p. False)\<rparr> None)
        (build_headers None) 0) = Inr [[(''borough'', JStr ''1'')], [(''borough'', JStr ''2'')]] \<and>
   length [[(''borough'', JStr ''1'')], [(''borough'', JStr ''2'')]] = limit (NYCDataFetcher\<lparr>limit := 2\<rparr>) \<and>
   fst (fetch_sales_data (NYCDataFetcher\<lparr>limit := 2\<rparr>)
          \<lparr>http = (\<lambda>k r. if k = 0 then Inr [[(''borough'', JStr ''1'')], [(''borough'', JStr ''2'')]] else Inl (HTTPError 503)),
           today = ''2024-06-01'', timestamp = ''20240601_120000'',
      write_fails = (\<lambda>p. False)\<rparr>
          (Suc (Suc 0)) ''2019-01-01'' None None Map.empty) =
     Some (Inr (DataFrame [[(''borough'', JStr ''1'')], [(''borough'', JStr ''2'')]]))"
  using partial_failure_returns_first_page
    [where e = "\<lparr>http = (\<lambda>k r. if k = 0 then Inr [[(''borough'', JStr ''1'')], [(''borough'', JStr ''2'')]] else Inl (HTTPError 503)),
           today = ''2024-06-01'', timestamp = ''20240601_120000'',
      write_fails = (\<lambda>p. False)\<rparr>"
       and self = "NYCDataFetcher\<lparr>limit := 2\<rparr>" and sd = "''2019-01-01''" and ed = None and tok = None
       and pg = "[[(''borough'', JStr ''1'')], [(''borough'', JStr ''2'')]]"
       and x = "HTTPError 503" and n = 0 and fs = Map.empty]
  by (simp add: NYCDataFetcher_def writes_succeed_def)

text \<open>
  C5. If the first page request is answered with an empty page, \<open>fetch_sales_data\<close>
  returns the empty table and does not raise, both output files being writable; that
  request is the only one.
\<close>

theorem empty_result_set_returns_empty:
  assumes first: "http e 0 (page_request self sd (resolve_end_date e ed) (build_headers tok) 0) = Inr []"
    and writes: "writes_succeed self e sd ed"
  shows "\<exists>s fs'. fetch_sales_data self e (Suc n) sd ed tok fs = (Some (Inr (DataFrame [])), s, fs') \<and>
           row_count (DataFrame (all_data s)) = 0 \<and> length (sent s) = 1 \<and> logged s = []"
proof -
  let ?ed = "resolve_end_date e ed" and ?hs = "build_headers tok"
  have "http e (length (sent initial_state)) (page_request self sd ?ed ?hs (offset initial_state)) = Inr []"
    using first by (simp add: initial_state_def)
  from loop_body_Inr [where g = "http e" and s = initial_state, OF this]
  have "\<exists>s. fetch_loop self (http e) sd ?ed ?hs (Suc n) initial_state = (Break, s) \<and>
            all_data s = [] \<and> length (sent s) = 1 \<and> logged s = []"
    by (simp add: short_page_def initial_state_def)
  then obtain s where "fetch_loop self (http e) sd ?ed ?hs (Suc n) initial_state = (Break, s)"
    and "all_data s = []" and "length (sent s) = 1" and "logged s = []" by blast
  then show ?thesis
    using fetch_sales_data_Break [of self e sd ed tok "Suc n" s fs] writes by simp
qed

theorem empty_result_set_returns_empty_witness:
  "http \<lparr>http = (\<lambda>k r. Inr []), today = ''2024-06-01'', timestamp = ''20240601_120000'',
      write_fails = (\<lambda>p. False)\<rparr> 0
     (page_request NYCDataFetcher ''2030-01-01''
        (resolve_end_date \<lparr>http = (\<lambda>k r. Inr []), today = ''2024-06-01'', timestamp = ''20240601_120000'',
      write_fails = (\<lambda>p. False)\<rparr> (Some ''2030-12-31''))
        (build_headers None) 0) = Inr [] \<and>
   (\<exists>s fs'. fetch_sales_data NYCDataFetcher
          \<lparr>http = (\<lambda>k r. Inr []), today = ''2024-06-01'', timestamp = ''20240601_120000'',
      write_fails = (\<lambda>p. False)\<rparr>
          (Suc 0) ''2030-01-01'' (Some ''2030-12-31'') None Map.empty = (Some (Inr (DataFrame [])), s, fs') \<and>
        length (sent s) = 1)"
  using empty_result_set_returns_empty
    [where e = "\<lparr>http = (\<lambda>k r. Inr []), today = ''2024-06-01'', timestamp = ''20240601_120000'',
      write_fails = (\<lambda>p. False)\<rparr>"
       and self = NYCDataFetcher and sd = "''2030-01-01''" and ed = "Some ''2030-12-31''" and tok = None
       and n = 0 and fs = Map.empty]
  by (auto simp: writes_succeed_def)

subsection \<open>Output files\<close>








lemma fetch_sales_data_result:
  "fetch_sales_data self e fuel sd ed tok fs =
     (case fetch_loop self (http e) sd (resolve_end_date e ed) (build_headers tok) fuel initial_state of
        (Continue, s) \<Rightarrow> (None, s, fs)
      | (Raise x, s) \<Rightarrow> (Some (Inl (RequestException x)), s, fs)
      | (Break, s) \<Rightarrow>
          if write_fails e (timestamped_path self e sd (resolve_end_date e ed))
          then (Some (Inl OSError), s, fs)
          else if write_fails e (standard_path self)
          then (Some (Inl OSError), s,
                fs(timestamped_path self e sd (resolve_end_date e ed) \<mapsto> csv_of (DataFrame (all_data s))))
          else (Some (Inr (DataFrame (all_data s))), s,
                fs(timestamped_path self e sd (resolve_end_date e ed) \<mapsto> csv_of (DataFrame (all_data s)),
                   standard_path self \<mapsto> csv_of (DataFrame (all_data s)))))"
  by (simp add: fetch_sales_data_def Let_def to_csv_def split: prod.splits control.splits)









subsection \<open>The requests of a call\<close>

lemma sent_shape:
  assumes "fetch_sales_data self e fuel sd ed tok fs = (r, s, fs')"
  shows "sent s = map (\<lambda>k. page_request self sd (resolve_end_date e ed) (build_headers tok)
                              (k * limit self)) [0..<length (sent s)]"
proof -
  let ?ed = "resolve_end_date e ed" and ?hs = "build_headers tok"
  have s: "s = snd (fetch_loop self (http e) sd ?ed ?hs fuel initial_state)"
    using fetch_sales_data_state [of self e fuel sd ed tok fs] assms by simp
  obtain c where run: "fetch_loop self (http e) sd ?ed ?hs fuel initial_state = (c, s)"
    using s by (cases "fetch_loop self (http e) sd ?ed ?hs fuel initial_state") simp
  have o: "offset initial_state = length (sent initial_state) * limit self"
    by (simp add: initial_state_def)
  have t: "sent initial_state = map (\<lambda>k. page_request self sd ?ed ?hs (k * limit self))
                                   [0..<length (sent initial_state)]"
    by (simp add: initial_state_def)
  show ?thesis by (rule trace_shape [where g = "http e", OF o t run])
qed

lemma sent_nth:
  assumes "fetch_sales_data self e fuel sd ed tok fs = (r, s, fs')" and "i < length (sent s)"
  shows "sent s ! i = page_request self sd (resolve_end_date e ed) (build_headers tok) (i * limit self)"
proof -
  let ?req = "\<lambda>k. page_request self sd (resolve_end_date e ed) (build_headers tok) (k * limit self)"
  have "sent s ! i = map ?req [0..<length (sent s)] ! i"
    using sent_shape [OF assms(1)] by simp
  also have "\<dots> = ?req i" using assms(2) by simp
  finally show ?thesis .
qed

lemma request_offset_page_request [simp]:
  "request_offset (page_request self sd ed hs off) = Some off"
  by (simp add: request_offset_def page_request_def)

text \<open>
  C6. In every run of \<open>fetch_sales_data\<close>, whether it returns, raises or is still
  looping, the requests issued so far carry the offsets 0, P, 2P, ... in this order: each
  offset is the previous one plus the page size P, so with P positive the offsets
  increase strictly. The constructor sets P to 50000.
\<close>

theorem offsets_increase_by_page_size:
  assumes "fetch_sales_data self e fuel sd ed tok fs = (r, s, fs')"
  shows "map request_offset (sent s) = map (\<lambda>k. Some (k * limit self)) [0..<length (sent s)] \<and>
         (\<forall>i. Suc i < length (sent s) \<longrightarrow>
              (\<exists>a. request_offset (sent s ! i) = Some a \<and>
                   request_offset (sent s ! Suc i) = Some (a + limit self) \<and>
                   (0 < limit self \<longrightarrow> a < a + limit self))) \<and>
         limit NYCDataFetcher = 50000"
proof -
  let ?req = "\<lambda>k. page_request self sd (resolve_end_date e ed) (build_headers tok) (k * limit self)"
  have "map request_offset (sent s) = map request_offset (map ?req [0..<length (sent s)])"
    using sent_shape [OF assms] by simp
  then have closed: "map request_offset (sent s) = map (\<lambda>k. Some (k * limit self)) [0..<length (sent s)]"
    by (simp add: comp_def)
  have step: "\<forall>i. Suc i < length (sent s) \<longrightarrow>
              (\<exists>a. request_offset (sent s ! i) = Some a \<and>
                   request_offset (sent s ! Suc i) = Some (a + limit self) \<and>
                   (0 < limit self \<longrightarrow> a < a + limit self))"
  proof (intro allI impI)
    fix i assume i: "Suc i < length (sent s)"
    then have i': "i < length (sent s)" by simp
    have a: "request_offset (sent s ! i) = Some (i * limit self)"
      using sent_nth [OF assms i'] by simp
    have b: "request_offset (sent s ! Suc i) = Some (i * limit self + limit self)"
      using sent_nth [OF assms i] by simp
    from a b show "\<exists>a. request_offset (sent s ! i) = Some a \<and>
                   request_offset (sent s ! Suc i) = Some (a + limit self) \<and>
                   (0 < limit self \<longrightarrow> a < a + limit self)"
      by simp
  qed
  have "limit NYCDataFetcher = 50000" by (simp add: NYCDataFetcher_def)
  with closed step show ?thesis by blast
qed

theorem offsets_increase_by_page_size_witness:
  "map request_offset (sent (fst (snd (fetch_sales_data (NYCDataFetcher\<lparr>limit := 2\<rparr>)
     \<lparr>http = (\<lambda>k r. if k < 2 then Inr [[(''borough'', JStr ''1'')], [(''borough'', JStr ''2'')]]
                          else Inr [[(''borough'', JStr ''3'')]]),
      today = ''2024-06-01'', timestamp = ''20240601_120000'',
      write_fails = (\<lambda>p. False)\<rparr>
     3 ''2019-01-01'' None (Some ''tok123'') Map.empty)))) = [Some 0, Some 2, Some 4] \<and>
   request_offset (sent (fst (snd (fetch_sales_data (NYCDataFetcher\<lparr>limit := 2\<rparr>)
     \<lparr>http = (\<lambda>k r. if k < 2 then Inr [[(''borough'', JStr ''1'')], [(''borough'', JStr ''2'')]]
                          else Inr [[(''borough'', JStr ''3'')]]),
      today = ''2024-06-01'', timestamp = ''20240601_120000'',
      write_fails = (\<lambda>p. False)\<rparr>
     3 ''2019-01-01'' None (Some ''tok123'') Map.empty))) ! 1) = Some 2 \<and>
   request_offset (sent (fst (snd (fetch_sales_data (NYCDataFetcher\<lparr>limit := 2\<rparr>)
     \<lparr>http = (\<lambda>k r. if k < 2 then Inr [[(''borough'', JStr ''1'')], [(''borough'', JStr ''2'')]]
                          else Inr [[(''borough'', JStr ''3'')]]),
      today = ''2024-06-01'', timestamp = ''20240601_120000'',
      write_fails = (\<lambda>p. False)\<rparr>
     3 ''2019-01-01'' None (Some ''tok123'') Map.empty))) ! 2) = Some (2 + limit (NYCDataFetcher\<lparr>limit := 2\<rparr>))"
proof -
  obtain r s fs' where run: "fetch_sales_data (NYCDataFetcher\<lparr>limit := 2\<rparr>)
     \<lparr>http = (\<lambda>k r. if k < 2 then Inr [[(''borough'', JStr ''1'')], [(''borough'', JStr ''2'')]]
                          else Inr [[(''borough'', JStr ''3'')]]),
      today = ''2024-06-01'', timestamp = ''20240601_120000'',
      write_fails = (\<lambda>p. False)\<rparr>
     3 ''2019-01-01'' None (Some ''tok123'') Map.empty = (r, s, fs')"
    by (cases "fetch_sales_data (NYCDataFetcher\<lparr>limit := 2\<rparr>)
     \<lparr>http = (\<lambda>k r. if k < 2 then Inr [[(''borough'', JStr ''1'')], [(''borough'', JStr ''2'')]]
                          else Inr [[(''borough'', JStr ''3'')]]),
      today = ''2024-06-01'', timestamp = ''20240601_120000'',
      write_fails = (\<lambda>p. False)\<rparr>
     3 ''2019-01-01'' None (Some ''tok123'') Map.empty")
  have len: "length (sent s) = 3"
    using run by (auto simp: fetch_sales_data_result Let_def loop_body_def initial_state_def
        numeral_3_eq_3 NYCDataFetcher_def)
  have upt: "[0..<3] = [0, 1, 2::nat]" by (simp add: upt_rec)
  from offsets_increase_by_page_size [OF run]
  have closed: "map request_offset (sent s) = map (\<lambda>k. Some (k * limit (NYCDataFetcher\<lparr>limit := 2\<rparr>))) [0..<length (sent s)]"
    and step: "\<forall>i. Suc i < length (sent s) \<longrightarrow>
              (\<exists>a. request_offset (sent s ! i) = Some a \<and>
                   request_offset (sent s ! Suc i) = Some (a + limit (NYCDataFetcher\<lparr>limit := 2\<rparr>)) \<and>
                   (0 < limit (NYCDataFetcher\<lparr>limit := 2\<rparr>) \<longrightarrow> a < a + limit (NYCDataFetcher\<lparr>limit := 2\<rparr>)))"
    by blast+
  have a: "map request_offset (sent s) = [Some 0, Some 2, Some 4]"
    using closed unfolding len upt by (simp add: NYCDataFetcher_def)
  have n1: "request_offset (sent s ! 1) = Some 2"
  proof -
    have "request_offset (sent s ! 1) = map request_offset (sent s) ! 1"
      using len by simp
    then show ?thesis unfolding a by simp
  qed
  have "Suc 1 < length (sent s)" using len by simp
  with step obtain b where "request_offset (sent s ! 1) = Some b"
    and "request_offset (sent s ! Suc 1) = Some (b + limit (NYCDataFetcher\<lparr>limit := 2\<rparr>))"
    by blast
  with n1 have n2: "request_offset (sent s ! 2) = Some (2 + limit (NYCDataFetcher\<lparr>limit := 2\<rparr>))"
    by (simp add: numeral_2_eq_2)
  show ?thesis using a n1 n2 run by simp
qed

text \<open>
  C7. The i-th request of a call is a GET of the sales endpoint with \<open>$limit\<close> the page
  size, \<open>$offset\<close> i times the page size (the value of \<open>offset\<close> in that iteration),
  \<open>$where\<close> the filter \<open>sale_date >= 'start' AND sale_date <= 'end'\<close> with both
  bounds inclusive, \<open>$order\<close> \<open>sale_date DESC\<close>, and the fetcher's timeout. It has
  the header \<open>X-App-Token\<close>, with the token as its value, exactly when a token was
  given that is not the empty string; it has no other header.
\<close>

theorem page_requests_well_formed:
  assumes "fetch_sales_data self e fuel sd ed tok fs = (r, s, fs')" and "i < length (sent s)"
  shows "sent s ! i =
           \<lparr>req_method = GET,
            req_url = base_url self @ ''/'' @ sales_endpoint self,
            req_params = Some \<lparr>p_limit = limit self, p_offset = i * limit self,
               p_where = ''sale_date >= '' @ [CHR 0x27] @ sd @ [CHR 0x27] @
                         '' AND sale_date <= '' @ [CHR 0x27] @
                         (case ed of None \<Rightarrow> today e | Some d \<Rightarrow> d) @ [CHR 0x27],
               p_order = ''sale_date DESC''\<rparr>,
            req_headers = (case tok of None \<Rightarrow> []
                           | Some t \<Rightarrow> if t = [] then [] else [(''X-App-Token'', t)]),
            req_timeout = timeout self\<rparr> \<and>
         ((\<exists>v. (''X-App-Token'', v) \<in> set (req_headers (sent s ! i))) \<longleftrightarrow>
          (\<exists>t. tok = Some t \<and> t \<noteq> []))"
proof -
  have nth: "sent s ! i = page_request self sd (resolve_end_date e ed) (build_headers tok) (i * limit self)"
    by (rule sent_nth [OF assms])
  have form: "sent s ! i =
           \<lparr>req_method = GET,
            req_url = base_url self @ ''/'' @ sales_endpoint self,
            req_params = Some \<lparr>p_limit = limit self, p_offset = i * limit self,
               p_where = ''sale_date >= '' @ [CHR 0x27] @ sd @ [CHR 0x27] @
                         '' AND sale_date <= '' @ [CHR 0x27] @
                         (case ed of None \<Rightarrow> today e | Some d \<Rightarrow> d) @ [CHR 0x27],
               p_order = ''sale_date DESC''\<rparr>,
            req_headers = (case tok of None \<Rightarrow> []
                           | Some t \<Rightarrow> if t = [] then [] else [(''X-App-Token'', t)]),
            req_timeout = timeout self\<rparr>"
    unfolding nth by (simp add: page_request_def where_clause_def resolve_end_date_def build_headers_def)
  have hdr: "(\<exists>v. (''X-App-Token'', v) \<in> set (req_headers (sent s ! i))) \<longleftrightarrow>
          (\<exists>t. tok = Some t \<and> t \<noteq> [])"
    unfolding nth by (cases tok) (simp_all add: page_request_def build_headers_def)
  from form hdr show ?thesis by (rule conjI)
qed

theorem page_requests_well_formed_witness:
  "length (sent (fst (snd (fetch_sales_data (NYCDataFetcher\<lparr>limit := 2\<rparr>)
     \<lparr>http = (\<lambda>k r. if k < 2 then Inr [[(''borough'', JStr ''1'')], [(''borough'', JStr ''2'')]]
                          else Inr [[(''borough'', JStr ''3'')]]),
      today = ''2024-06-01'', timestamp = ''20240601_120000'',
      write_fails = (\<lambda>p. False)\<rparr>
     3 ''2019-01-01'' None (Some ''tok123'') Map.empty)))) = 3 \<and>
   sent (fst (snd (fetch_sales_data (NYCDataFetcher\<lparr>limit := 2\<rparr>)
     \<lparr>http = (\<lambda>k r. if k < 2 then Inr [[(''borough'', JStr ''1'')], [(''borough'', JStr ''2'')]]
                          else Inr [[(''borough'', JStr ''3'')]]),
      today = ''2024-06-01'', timestamp = ''20240601_120000'',
      write_fails = (\<lambda>p. False)\<rparr>
     3 ''2019-01-01'' None (Some ''tok123'') Map.empty))) ! 2 =
     \<lparr>req_method = GET,
      req_url = ''https://data.cityofnewyork.us/resource/usep-8jbt.json'',
      req_params = Some \<lparr>p_limit = 2, p_offset = 4,
         p_where = ''sale_date >= '' @ [CHR 0x27] @ ''2019-01-01'' @ [CHR 0x27] @
                   '' AND sale_date <= '' @ [CHR 0x27] @ ''2024-06-01'' @ [CHR 0x27],
         p_order = ''sale_date DESC''\<rparr>,
      req_headers = [(''X-App-Token'', ''tok123'')],
      req_timeout = 30\<rparr>"
proof -
  obtain r s fs' where run: "fetch_sales_data (NYCDataFetcher\<lparr>limit := 2\<rparr>)
     \<lparr>http = (\<lambda>k r. if k < 2 then Inr [[(''borough'', JStr ''1'')], [(''borough'', JStr ''2'')]]
                          else Inr [[(''borough'', JStr ''3'')]]),
      today = ''2024-06-01'', timestamp = ''20240601_120000'',
      write_fails = (\<lambda>p. False)\<rparr>
     3 ''2019-01-01'' None (Some ''tok123'') Map.empty = (r, s, fs')"
    by (cases "fetch_sales_data (NYCDataFetcher\<lparr>limit := 2\<rparr>)
     \<lparr>http = (\<lambda>k r. if k < 2 then Inr [[(''borough'', JStr ''1'')], [(''borough'', JStr ''2'')]]
                          else Inr [[(''borough'', JStr ''3'')]]),
      today = ''2024-06-01'', timestamp = ''20240601_120000'',
      write_fails = (\<lambda>p. False)\<rparr>
     3 ''2019-01-01'' None (Some ''tok123'') Map.empty")
  have len: "length (sent s) = 3"
    using run by (auto simp: fetch_sales_data_result Let_def loop_body_def initial_state_def
        numeral_3_eq_3 NYCDataFetcher_def)
  then have i: "2 < length (sent s)" by simp
  from page_requests_well_formed [OF run i]
  have "sent s ! 2 =
     \<lparr>req_method = GET,
      req_url = ''https://data.cityofnewyork.us/resource/usep-8jbt.json'',
      req_params = Some \<lparr>p_limit = 2, p_offset = 4,
         p_where = ''sale_date >= '' @ [CHR 0x27] @ ''2019-01-01'' @ [CHR 0x27] @
                   '' AND sale_date <= '' @ [CHR 0x27] @ ''2024-06-01'' @ [CHR 0x27],
         p_order = ''sale_date DESC''\<rparr>,
      req_headers = [(''X-App-Token'', ''tok123'')],
      req_timeout = 30\<rparr>"
    by (simp add: NYCDataFetcher_def)
  with len run show ?thesis by simp
qed

subsection \<open>The metadata probe\<close>

lemma describe_metadata_not_dict:
  assumes "\<forall>kvs. metadata \<noteq> JObj kvs"
  shows "describe_metadata metadata = Inl AttributeError"
  using assms by (cases metadata) (simp_all add: describe_metadata_def)

text \<open>
  C9. \<open>get_dataset_info\<close> never raises. When the metadata request fails (connection
  failure, timeout, error status, undecodable body) it logs one error line carrying that
  exception and returns \<open>None\<close>; the same happens, with the exception raised while
  the body is inspected, when the decoded body is not a JSON object. An error line is
  logged exactly when \<open>None\<close> is returned.
\<close>

theorem metadata_probe_never_raises:
  "(\<exists>r. fst (get_dataset_info self get) = Inr r) \<and>
   (\<forall>x. get (metadata_request self) = Inl x \<longrightarrow>
        get_dataset_info self get =
          (Inr None, [metadata_request self],
           [LogError ''Failed to fetch dataset metadata: '' (RequestException x)])) \<and>
   (\<forall>m. get (metadata_request self) = Inr m \<and> (\<forall>kvs. m \<noteq> JObj kvs) \<longrightarrow>
        get_dataset_info self get =
          (Inr None, [metadata_request self],
           [LogError ''Failed to fetch dataset metadata: '' AttributeError])) \<and>
   (fst (get_dataset_info self get) = Inr None \<longleftrightarrow>
      length (snd (snd (get_dataset_info self get))) = 1) \<and>
   (fst (get_dataset_info self get) \<noteq> Inr None \<longleftrightarrow>
      snd (snd (get_dataset_info self get)) = [])"
proof (intro conjI allI impI)
  show "\<exists>r. fst (get_dataset_info self get) = Inr r"
    by (simp add: get_dataset_info_def Let_def split: sum.splits)
next
  fix x assume "get (metadata_request self) = Inl x"
  then show "get_dataset_info self get =
          (Inr None, [metadata_request self],
           [LogError ''Failed to fetch dataset metadata: '' (RequestException x)])"
    by (simp add: get_dataset_info_def Let_def)
next
  fix m assume "get (metadata_request self) = Inr m \<and> (\<forall>kvs. m \<noteq> JObj kvs)"
  then show "get_dataset_info self get =
          (Inr None, [metadata_request self],
           [LogError ''Failed to fetch dataset metadata: '' AttributeError])"
    by (simp add: get_dataset_info_def Let_def describe_metadata_not_dict)
next
  show "fst (get_dataset_info self get) = Inr None \<longleftrightarrow>
      length (snd (snd (get_dataset_info self get))) = 1"
    by (simp add: get_dataset_info_def Let_def split: sum.splits)
next
  show "fst (get_dataset_info self get) \<noteq> Inr None \<longleftrightarrow>
      snd (snd (get_dataset_info self get)) = []"
    by (simp add: get_dataset_info_def Let_def split: sum.splits)
qed

theorem metadata_probe_never_raises_witness:
  "get_dataset_info NYCDataFetcher (\<lambda>r. Inl (HTTPError 503)) =
     (Inr None, [metadata_request NYCDataFetcher],
      [LogError ''Failed to fetch dataset metadata: '' (RequestException (HTTPError 503))]) \<and>
   get_dataset_info NYCDataFetcher (\<lambda>r. Inr (JArr [])) =
     (Inr None, [metadata_request NYCDataFetcher],
      [LogError ''Failed to fetch dataset metadata: '' AttributeError])"
proof -
  have a: "(\<lambda>r. Inl (HTTPError 503) :: request_exception + json) (metadata_request NYCDataFetcher) = Inl (HTTPError 503)"
    by simp
  have b: "(\<lambda>r. Inr (JArr []) :: request_exception + json) (metadata_request NYCDataFetcher) = Inr (JArr []) \<and>
           (\<forall>kvs. JArr [] \<noteq> JObj kvs)"
    by simp
  from metadata_probe_never_raises [of NYCDataFetcher "\<lambda>r. Inl (HTTPError 503)"] a
  have 1: "get_dataset_info NYCDataFetcher (\<lambda>r. Inl (HTTPError 503)) =
     (Inr None, [metadata_request NYCDataFetcher],
      [LogError ''Failed to fetch dataset metadata: '' (RequestException (HTTPError 503))])"
    by blast
  from metadata_probe_never_raises [of NYCDataFetcher "\<lambda>r. Inr (JArr [])"] b
  have 2: "get_dataset_info NYCDataFetcher (\<lambda>r. Inr (JArr [])) =
     (Inr None, [metadata_request NYCDataFetcher],
      [LogError ''Failed to fetch dataset metadata: '' AttributeError])"
    by blast
  from 1 2 show ?thesis by (rule conjI)
qed

subsection \<open>Runs against a server that holds the data\<close>

lemma ceil_div_eq:
  assumes "0 < p"
  shows "ceil_div n p = (if n mod p = 0 then n div p else n div p + 1)"
proof (cases "n mod p = 0")
  case True
  have "n + p - 1 = (p - 1) + n div p * p"
    using True assms by (simp add: mod_eq_0_iff_dvd)
  then have "(n + p - 1) div p = n div p + (p - 1) div p"
    using assms by (simp only: div_mult_self1) 
  then show ?thesis using True assms by (simp add: ceil_div_def)
next
  case False
  then have "0 < n mod p" by simp
  have aux: "\<And>r q :: nat. 0 < r \<Longrightarrow> (r + q * p) + p - 1 = (r - 1) + (q + 1) * p"
    by (simp add: algebra_simps)
  have "n + p - 1 = (n mod p + n div p * p) + p - 1" by simp
  also have "\<dots> = (n mod p - 1) + (n div p + 1) * p"
    by (rule aux [OF \<open>0 < n mod p\<close>])
  finally have "n + p - 1 = (n mod p - 1) + (n div p + 1) * p" .
  then have "(n + p - 1) div p = (n div p + 1) + (n mod p - 1) div p"
    using assms by (simp only: div_mult_self1)
  moreover have "n mod p - 1 < p"
    using assms by (simp add: less_imp_diff_less)
  ultimately show ?thesis using False by (simp add: ceil_div_def)
qed

lemma served_running:
  assumes "0 < limit self" and "http e = serve ds" and "n \<le> length ds div limit self"
  shows "\<exists>s. fetch_sales_data self e n sd ed tok fs = (None, s, fs) \<and> length (sent s) = n"
proof -
  let ?ed = "resolve_end_date e ed" and ?hs = "build_headers tok"
  have "\<forall>k<n. http e k (page_request self sd ?ed ?hs (k * limit self)) = Inr (slice self ds k) \<and>
                 \<not> short_page self (slice self ds k)"
    using assms by (simp add: serve_page slice_short_iff)
  from running_on_full_pages [where g = "http e" and pages = "slice self ds", OF this]
  obtain s where run: "fetch_loop self (http e) sd ?ed ?hs n initial_state = (Continue, s)"
    and t: "sent s = map (\<lambda>k. page_request self sd ?ed ?hs (k * limit self)) [0..<n]"
    by blast
  have "length (sent s) = n" using t by simp
  with fetch_sales_data_Continue [OF run] show ?thesis by blast
qed

lemma fetch_sales_data_left:
  assumes "fetch_loop self (http e) sd (resolve_end_date e ed) (build_headers tok) fuel initial_state = (Break, s)"
  shows "\<exists>r fs'. fetch_sales_data self e fuel sd ed tok fs = (Some r, s, fs') \<and>
                 (writes_succeed self e sd ed \<longrightarrow> r = Inr (DataFrame (all_data s)))"
  by (simp add: fetch_sales_data_result assms writes_succeed_def)

lemma served_run:
  assumes "0 < limit self" and "http e = serve ds"
  shows "\<exists>r s fs'. fetch_sales_data self e (length ds div limit self + Suc m) sd ed tok fs =
                    (Some r, s, fs') \<and>
                 (writes_succeed self e sd ed \<longrightarrow> r = Inr (DataFrame ds)) \<and>
                 sent s = map (\<lambda>k. page_request self sd (resolve_end_date e ed) (build_headers tok)
                                      (k * limit self)) [0..<Suc (length ds div limit self)] \<and>
                 all_data s = ds \<and> logged s = []"
proof -
  let ?ed = "resolve_end_date e ed" and ?hs = "build_headers tok"
  let ?K = "length ds div limit self"
  have full: "\<forall>k<?K. http e k (page_request self sd ?ed ?hs (k * limit self)) = Inr (slice self ds k) \<and>
                 \<not> short_page self (slice self ds k)"
    using assms by (simp add: serve_page slice_short_iff)
  have last: "http e ?K (page_request self sd ?ed ?hs (?K * limit self)) = Inr (slice self ds ?K)"
    using assms by (simp add: serve_page)
  have short: "short_page self (slice self ds ?K)"
    using assms by (simp add: slice_short_iff)
  from paged_run [where g = "http e" and pages = "slice self ds", OF full last short]
  obtain s where run: "fetch_loop self (http e) sd ?ed ?hs (?K + Suc m) initial_state = (Break, s)"
    and t: "sent s = map (\<lambda>k. page_request self sd ?ed ?hs (k * limit self)) [0..<Suc ?K]"
    and d: "all_data s = concat (map (slice self ds) [0..<Suc ?K])"
    and l: "logged s = []"
    by blast
  have "length ds < Suc ?K * limit self"
    using assms(1) dividend_less_div_times [of "limit self" "length ds"] by simp
  then have "take (Suc ?K * limit self) ds = ds" by simp
  then have d': "all_data s = ds" using d by (simp only: concat_slices)
  from fetch_sales_data_left [OF run, of fs] obtain r fs' where
    res: "fetch_sales_data self e (?K + Suc m) sd ed tok fs = (Some r, s, fs')"
    and ret: "writes_succeed self e sd ed \<longrightarrow> r = Inr (DataFrame (all_data s))"
    by blast
  have ret': "writes_succeed self e sd ed \<longrightarrow> r = Inr (DataFrame ds)"
    using ret d' by simp
  show ?thesis by (intro exI [of _ r] exI [of _ s] exI [of _ fs'] conjI res ret' t d' l)
qed

text \<open>
  C1, as the code has it. Against a server that holds N records and answers every
  request with the window asked for, and with a positive page size P, the call comes to
  an end with all N records accumulated after exactly N div P + 1 page requests, and
  returns them if both output files are writable. That is ceil(N / P) when N is
  not a multiple of P, ceil(N / P) + 1 when N is a positive multiple of P, and one
  request when N = 0.
\<close>

theorem request_count_on_served_data:
  assumes "0 < limit self" and "http e = serve ds"
  shows "\<exists>r s fs'. fetch_sales_data self e (length ds div limit self + Suc m) sd ed tok fs =
                    (Some r, s, fs') \<and>
                 (writes_succeed self e sd ed \<longrightarrow> r = Inr (DataFrame ds)) \<and>
                 all_data s = ds \<and>
                 length (sent s) = length ds div limit self + 1 \<and>
                 (length ds mod limit self \<noteq> 0 \<longrightarrow>
                    length (sent s) = ceil_div (length ds) (limit self)) \<and>
                 (0 < length ds \<and> length ds mod limit self = 0 \<longrightarrow>
                    length (sent s) = ceil_div (length ds) (limit self) + 1) \<and>
                 (length ds = 0 \<longrightarrow> length (sent s) = 1)"
proof -
  from served_run [OF assms, where m = m and sd = sd and ed = ed and tok = tok and fs = fs]
  obtain r s fs' where
    run: "fetch_sales_data self e (length ds div limit self + Suc m) sd ed tok fs = (Some r, s, fs')"
    and ret: "writes_succeed self e sd ed \<longrightarrow> r = Inr (DataFrame ds)"
    and t: "sent s = map (\<lambda>k. page_request self sd (resolve_end_date e ed) (build_headers tok)
                                (k * limit self)) [0..<Suc (length ds div limit self)]"
    and d: "all_data s = ds"
    by blast
  have n: "length (sent s) = length ds div limit self + 1"
    using t by simp
  have a: "length ds mod limit self \<noteq> 0 \<longrightarrow> length (sent s) = ceil_div (length ds) (limit self)"
    using n by (simp add: ceil_div_eq [OF assms(1)])
  have b: "0 < length ds \<and> length ds mod limit self = 0 \<longrightarrow>
             length (sent s) = ceil_div (length ds) (limit self) + 1"
    using n by (simp add: ceil_div_eq [OF assms(1)])
  have c: "length ds = 0 \<longrightarrow> length (sent s) = 1"
    using n by simp
  show ?thesis by (intro exI [of _ r] exI [of _ s] exI [of _ fs'] conjI run ret d n a b c)
qed

theorem request_count_on_served_data_witness:
  "\<exists>s fs'. fetch_sales_data (NYCDataFetcher\<lparr>limit := 2\<rparr>)
      \<lparr>http = serve [[(''borough'', JStr ''1'')], [(''borough'', JStr ''1'')], [(''borough'', JStr ''1'')]], today = ''2024-06-01'', timestamp = ''20240601_120000'',
      write_fails = (\<lambda>p. False)\<rparr>
      2 ''2019-01-01'' None None Map.empty =
        (Some (Inr (DataFrame [[(''borough'', JStr ''1'')], [(''borough'', JStr ''1'')], [(''borough'', JStr ''1'')]])), s, fs') \<and>
      length (sent s) = 2 \<and> ceil_div 3 2 = 2"
proof -
  let ?self = "NYCDataFetcher\<lparr>limit := 2\<rparr>"
  let ?e = "\<lparr>http = serve [[(''borough'', JStr ''1'')], [(''borough'', JStr ''1'')], [(''borough'', JStr ''1'')]], today = ''2024-06-01'', timestamp = ''20240601_120000'',
      write_fails = (\<lambda>p. False)\<rparr>"
  have p: "0 < limit ?self" by simp
  have h: "http ?e = serve [[(''borough'', JStr ''1'')], [(''borough'', JStr ''1'')], [(''borough'', JStr ''1'')]]" by simp
  have k: "length [[(''borough'', JStr ''1'')], [(''borough'', JStr ''1'')], [(''borough'', JStr ''1'')]] div limit ?self + Suc 0 = 2" by simp
  have c: "ceil_div 3 2 = 2" by (simp add: ceil_div_def)
  have w: "writes_succeed ?self ?e ''2019-01-01'' None" by (simp add: writes_succeed_def)
  from request_count_on_served_data [OF p h, where m = 0 and sd = "''2019-01-01''" and ed = None
      and tok = None and fs = Map.empty]
  show ?thesis unfolding k using c w by auto
qed

text \<open>
  C1 as stated fails where N is a positive multiple of P: with the constructor's page
  size 50000 and a server that holds 50000 records, the call issues two requests, and
  ceil(50000 / 50000) is one.
\<close>

theorem ceil_request_count_counterexample:
  "0 < length (replicate 50000 [(''borough'', JStr ''1'')]) \<and>
   length (sent (fst (snd (fetch_sales_data NYCDataFetcher
      \<lparr>http = serve (replicate 50000 [(''borough'', JStr ''1'')]), today = ''2024-06-01'', timestamp = ''20240601_120000'',
      write_fails = (\<lambda>p. False)\<rparr>
      2 ''2019-01-01'' None None Map.empty)))) = 2 \<and>
   ceil_div (length (replicate 50000 [(''borough'', JStr ''1'')])) (limit NYCDataFetcher) = 1"
proof -
  let ?e = "\<lparr>http = serve (replicate 50000 [(''borough'', JStr ''1'')]), today = ''2024-06-01'', timestamp = ''20240601_120000'',
      write_fails = (\<lambda>p. False)\<rparr>"
  have p: "0 < limit NYCDataFetcher" by (simp add: NYCDataFetcher_def)
  have h: "http ?e = serve (replicate 50000 [(''borough'', JStr ''1'')])" by simp
  have k: "length (replicate 50000 [(''borough'', JStr ''1'')]) div limit NYCDataFetcher = 1"
    by (simp add: NYCDataFetcher_def)
  have f: "length (replicate 50000 [(''borough'', JStr ''1'')]) div limit NYCDataFetcher + Suc 0 = 2"
    using k by simp
  from served_run [OF p h, where m = 0 and sd = "''2019-01-01''" and ed = None and tok = None
      and fs = Map.empty]
  obtain r s fs' where run: "fetch_sales_data NYCDataFetcher ?e
         (length (replicate 50000 [(''borough'', JStr ''1'')]) div limit NYCDataFetcher + Suc 0)
         ''2019-01-01'' None None Map.empty =
       (Some r, s, fs')"
    and t: "sent s = map (\<lambda>k. page_request NYCDataFetcher ''2019-01-01'' (resolve_end_date ?e None)
                (build_headers None) (k * limit NYCDataFetcher))
              [0..<Suc (length (replicate 50000 [(''borough'', JStr ''1'')]) div limit NYCDataFetcher)]"
    by blast
  have t: "length (sent s) = 2" unfolding t k by simp
  note run = run [unfolded f]
  have c: "ceil_div (length (replicate 50000 [(''borough'', JStr ''1'')])) (limit NYCDataFetcher) = 1"
    by (simp add: ceil_div_def NYCDataFetcher_def)
  show ?thesis using run t c by simp
qed

subsection \<open>Leaving the loop\<close>

text \<open>
  C2. Suppose every page request succeeds, the k-th one with page \<open>pages k\<close>. Then the
  call comes to an end if and only if some page is empty or has fewer records than the
  page size. In particular a page of exactly the page size never ends the loop: against
  a server that holds m times the page size records, m positive, the loop is still
  running after the m-th request has brought the last records, and one more request,
  answered with the empty page, ends it; the call then returns all records if both
  output files are writable.
\<close>

theorem loop_leaves_on_short_page:
  "((\<forall>k. http e k (page_request self sd (resolve_end_date e ed) (build_headers tok) (k * limit self))
            = Inr (pages k)) \<longrightarrow>
      ((\<exists>fuel. fst (fetch_sales_data self e fuel sd ed tok fs) \<noteq> None) \<longleftrightarrow>
       (\<exists>k. pages k = [] \<or> length (pages k) < limit self))) \<and>
   (0 < limit self \<and> 0 < m \<and> length ds = m * limit self \<and> http e = serve ds \<longrightarrow>
      fst (fetch_sales_data self e m sd ed tok fs) = None \<and>
      all_data (fst (snd (fetch_sales_data self e m sd ed tok fs))) = ds \<and>
      (\<exists>r s fs'. fetch_sales_data self e (Suc m) sd ed tok fs = (Some r, s, fs') \<and>
               (writes_succeed self e sd ed \<longrightarrow> r = Inr (DataFrame ds)) \<and>
               all_data s = ds \<and>
               length (sent s) = m + 1 \<and>
               http e m (last (sent s)) = Inr []))"
proof (intro conjI impI)
  let ?ed = "resolve_end_date e ed" and ?hs = "build_headers tok"
  let ?req = "\<lambda>k. page_request self sd ?ed ?hs (k * limit self)"
  assume ok: "\<forall>k. http e k (?req k) = Inr (pages k)"
  show "(\<exists>fuel. fst (fetch_sales_data self e fuel sd ed tok fs) \<noteq> None) \<longleftrightarrow>
        (\<exists>k. pages k = [] \<or> length (pages k) < limit self)"
  proof
    assume "\<exists>fuel. fst (fetch_sales_data self e fuel sd ed tok fs) \<noteq> None"
    then obtain fuel where stop: "fst (fetch_sales_data self e fuel sd ed tok fs) \<noteq> None"
      by blast
    show "\<exists>k. pages k = [] \<or> length (pages k) < limit self"
    proof (rule ccontr)
      assume "\<not> (\<exists>k. pages k = [] \<or> length (pages k) < limit self)"
      then have "\<forall>k<fuel. http e k (?req k) = Inr (pages k) \<and> \<not> short_page self (pages k)"
        using ok by (simp add: short_page_def)
      from running_on_full_pages [where g = "http e" and pages = pages, OF this]
      obtain s where "fetch_loop self (http e) sd ?ed ?hs fuel initial_state = (Continue, s)"
        by blast
      from fetch_sales_data_Continue [OF this, of fs] stop show False by simp
    qed
  next
    assume "\<exists>k. pages k = [] \<or> length (pages k) < limit self"
    then have ex: "\<exists>k. short_page self (pages k)" by (simp add: short_page_def)
    define K where "K = (LEAST k. short_page self (pages k))"
    have short: "short_page self (pages K)"
      unfolding K_def using ex by (rule LeastI_ex)
    have full: "\<forall>k<K. http e k (?req k) = Inr (pages k) \<and> \<not> short_page self (pages k)"
    proof (intro allI impI conjI)
      fix k assume "k < K"
      then show "\<not> short_page self (pages k)"
        unfolding K_def by (rule not_less_Least)
      show "http e k (?req k) = Inr (pages k)" using ok by blast
    qed
    have last: "http e K (?req K) = Inr (pages K)" using ok by simp
    from paged_run [where g = "http e" and pages = pages and m = 0, OF full last short]
    obtain s where "fetch_loop self (http e) sd ?ed ?hs (K + Suc 0) initial_state = (Break, s)"
      by blast
    from fetch_sales_data_ended [OF this, of fs]
    have "fst (fetch_sales_data self e (K + Suc 0) sd ed tok fs) \<noteq> None" .
    then show "\<exists>fuel. fst (fetch_sales_data self e fuel sd ed tok fs) \<noteq> None" by blast
  qed
next
  let ?ed = "resolve_end_date e ed" and ?hs = "build_headers tok"
  let ?req = "\<lambda>k. page_request self sd ?ed ?hs (k * limit self)"
  assume a: "0 < limit self \<and> 0 < m \<and> length ds = m * limit self \<and> http e = serve ds"
  then have pos: "0 < limit self" and h: "http e = serve ds"
    and K: "length ds div limit self = m"
    by simp_all
  have full: "\<forall>k<m. http e k (?req k) = Inr (slice self ds k) \<and> \<not> short_page self (slice self ds k)"
    using pos h K by (simp add: serve_page slice_short_iff)
  from running_on_full_pages [where g = "http e" and pages = "slice self ds", OF full]
  obtain s0 where run0: "fetch_loop self (http e) sd ?ed ?hs m initial_state = (Continue, s0)"
    and d0: "all_data s0 = concat (map (slice self ds) [0..<m])"
    by blast
  have "take (m * limit self) ds = ds" using a by simp
  then have all: "all_data s0 = ds"
    using d0 by (simp only: concat_slices)
  have r0: "fetch_sales_data self e m sd ed tok fs = (None, s0, fs)"
    by (rule fetch_sales_data_Continue [OF run0])
  show "fst (fetch_sales_data self e m sd ed tok fs) = None"
    using r0 by simp
  show "all_data (fst (snd (fetch_sales_data self e m sd ed tok fs))) = ds"
    using r0 all by simp
  have f: "m + Suc 0 = Suc m" by simp
  from served_run [OF pos h, where m = 0 and sd = sd and ed = ed and tok = tok and fs = fs,
      unfolded K f]
  obtain r s fs' where
    run: "fetch_sales_data self e (Suc m) sd ed tok fs = (Some r, s, fs')"
    and ret: "writes_succeed self e sd ed \<longrightarrow> r = Inr (DataFrame ds)"
    and t: "sent s = map ?req [0..<Suc m]"
    and d: "all_data s = ds"
    by blast
  have len: "length (sent s) = m + 1" using t by simp
  have "last (sent s) = ?req m" using t by simp
  then have "http e m (last (sent s)) = Inr (slice self ds m)"
    using h by (simp add: serve_page)
  moreover have "slice self ds m = []"
    using a by (simp add: slice_def)
  ultimately have e: "http e m (last (sent s)) = Inr []" by simp
  show "\<exists>r s fs'. fetch_sales_data self e (Suc m) sd ed tok fs = (Some r, s, fs') \<and>
               (writes_succeed self e sd ed \<longrightarrow> r = Inr (DataFrame ds)) \<and>
               all_data s = ds \<and> length (sent s) = m + 1 \<and> http e m (last (sent s)) = Inr []"
    by (intro exI [of _ r] exI [of _ s] exI [of _ fs'] conjI run ret d len e)
qed

theorem loop_leaves_on_short_page_witness:
  "(\<exists>fuel. fst (fetch_sales_data (NYCDataFetcher\<lparr>limit := 2\<rparr>)
      \<lparr>http = serve [[(''borough'', JStr ''1'')], [(''borough'', JStr ''2'')], [(''borough'', JStr ''3'')], [(''borough'', JStr ''4'')]], today = ''2024-06-01'', timestamp = ''20240601_120000'',
      write_fails = (\<lambda>p. False)\<rparr>
      fuel ''2019-01-01'' None None Map.empty) \<noteq> None) \<and>
   slice (NYCDataFetcher\<lparr>limit := 2\<rparr>) [[(''borough'', JStr ''1'')], [(''borough'', JStr ''2'')], [(''borough'', JStr ''3'')], [(''borough'', JStr ''4'')]] 2 = [] \<and>
   fst (fetch_sales_data (NYCDataFetcher\<lparr>limit := 2\<rparr>)
      \<lparr>http = serve [[(''borough'', JStr ''1'')], [(''borough'', JStr ''2'')], [(''borough'', JStr ''3'')], [(''borough'', JStr ''4'')]], today = ''2024-06-01'', timestamp = ''20240601_120000'',
      write_fails = (\<lambda>p. False)\<rparr>
      2 ''2019-01-01'' None None Map.empty) = None \<and>
   (\<exists>s fs'. fetch_sales_data (NYCDataFetcher\<lparr>limit := 2\<rparr>)
      \<lparr>http = serve [[(''borough'', JStr ''1'')], [(''borough'', JStr ''2'')], [(''borough'', JStr ''3'')], [(''borough'', JStr ''4'')]], today = ''2024-06-01'', timestamp = ''20240601_120000'',
      write_fails = (\<lambda>p. False)\<rparr>
      (Suc 2) ''2019-01-01'' None None Map.empty =
        (Some (Inr (DataFrame [[(''borough'', JStr ''1'')], [(''borough'', JStr ''2'')], [(''borough'', JStr ''3'')], [(''borough'', JStr ''4'')]])), s, fs') \<and>
      length (sent s) = 2 + 1 \<and>
      http \<lparr>http = serve [[(''borough'', JStr ''1'')], [(''borough'', JStr ''2'')], [(''borough'', JStr ''3'')], [(''borough'', JStr ''4'')]], today = ''2024-06-01'', timestamp = ''20240601_120000'',
      write_fails = (\<lambda>p. False)\<rparr> 2 (last (sent s)) = Inr [])"
proof -
  let ?self = "(NYCDataFetcher\<lparr>limit := 2\<rparr>)"
  let ?ds = "[[(''borough'', JStr ''1'')], [(''borough'', JStr ''2'')], [(''borough'', JStr ''3'')], [(''borough'', JStr ''4'')]]"
  let ?e = "\<lparr>http = serve [[(''borough'', JStr ''1'')], [(''borough'', JStr ''2'')], [(''borough'', JStr ''3'')], [(''borough'', JStr ''4'')]], today = ''2024-06-01'', timestamp = ''20240601_120000'',
      write_fails = (\<lambda>p. False)\<rparr>"
  have ok: "\<forall>k. http ?e k (page_request ?self ''2019-01-01'' (resolve_end_date ?e None)
                (build_headers None) (k * limit ?self)) = Inr (slice ?self ?ds k)"
    by (simp add: serve_def page_request_def slice_def)
  have hyp: "0 < limit ?self \<and> 0 < (2::nat) \<and> length ?ds = 2 * limit ?self \<and> http ?e = serve ?ds \<and>
             writes_succeed ?self ?e ''2019-01-01'' None"
    by (simp add: writes_succeed_def)
  have empty: "slice ?self ?ds 2 = []" by (simp add: slice_def)
  then have short: "\<exists>k. slice ?self ?ds k = [] \<or> length (slice ?self ?ds k) < limit ?self"
    by blast
  note inst = loop_leaves_on_short_page [where e = ?e and self = ?self and sd = "''2019-01-01''"
      and ed = None and tok = None and pages = "slice ?self ?ds" and fs = Map.empty
      and m = 2 and ds = ?ds]
  from inst ok short
  have a: "\<exists>fuel. fst (fetch_sales_data ?self ?e fuel ''2019-01-01'' None None Map.empty) \<noteq> None"
    by blast
  from inst hyp
  have b: "fst (fetch_sales_data ?self ?e 2 ''2019-01-01'' None None Map.empty) = None"
    and c: "\<exists>s fs'. fetch_sales_data ?self ?e (Suc 2) ''2019-01-01'' None None Map.empty =
        (Some (Inr (DataFrame ?ds)), s, fs') \<and>
      length (sent s) = 2 + 1 \<and> http ?e 2 (last (sent s)) = Inr []"
    by blast+
  from a empty b c show ?thesis by (intro conjI)
qed

end
